theory Spec2Isabelle
  imports Main "HOL-Library.AList" "HOL-Library.List_Lexorder" "HOL-Library.Char_ord"
begin

section \<open>Data model\<close>

text \<open>
  The notebook \<^verbatim>\<open>XGBoost_on_GPU_Quickstart.ipynb\<close> is a linear pipeline over one tabular
  dataset. A dataset handle is modelled by its schema (the column names that
  \<^verbatim>\<open>df.columns\<close> reports, each with its type) and its rows, one list of cells
  per row, in schema order. The types are those the schema of a table reports: a string
  type with its declared length, the integer type, the floating point type, a decimal
  type with precision and scale, and the boolean, date and timestamp types. Two types
  are equal when they are the same type with the same parameters, as the equality of the
  library's type objects has it. A cell is missing (\<open>Null\<close>, the warehouse's NULL and
  pandas' \<^verbatim>\<open>None\<close>), a string or a number. Numbers are integers: the arithmetic of
  floating point columns is not modelled.
\<close>

datatype dtype =
    StringType nat
  | LongType
  | DoubleType
  | DecimalType nat nat
  | BooleanType
  | DateType
  | TimestampType

datatype cell = Null | StrV string | NumV int

datatype error =
    ColumnNotFound string
  | CannotDropAllColumns
  | DuplicateColumnName
  | InvalidIdentifier string
  | InputColsNotSet

record dataframe =
  schema :: "(string \<times> dtype) list"
  rows :: "cell list list"

definition columns :: "dataframe \<Rightarrow> string list" where
  "columns df = map fst (schema df)"

definition count :: "dataframe \<Rightarrow> nat" where
  "count df = length (rows df)"

text \<open>
  The invariant of a dataset handle: column names are distinct and every row has one
  cell per column.
\<close>

definition well_formed :: "dataframe \<Rightarrow> bool" where
  "well_formed df \<longleftrightarrow> distinct (columns df) \<and> (\<forall>r \<in> set (rows df). length r = length (schema df))"

definition cell_of :: "string list \<Rightarrow> cell list \<Rightarrow> string \<Rightarrow> cell" where
  "cell_of cols r n = (case map_of (zip cols r) n of Some c \<Rightarrow> c | None \<Rightarrow> Null)"

definition column :: "dataframe \<Rightarrow> string \<Rightarrow> cell list" where
  "column df n = map (\<lambda>r. cell_of (columns df) r n) (rows df)"

definition dtype_of :: "dataframe \<Rightarrow> string \<Rightarrow> dtype" where
  "dtype_of df n = (case map_of (schema df) n of Some t \<Rightarrow> t | None \<Rightarrow> LongType)"

text \<open>
  \<^verbatim>\<open>df.select(names)\<close> keeps the named columns, in the order of \<open>names\<close>; a name
  that is not a column is an error. \<^verbatim>\<open>df.drop(names)\<close> keeps the columns that are not
  named, ignores names that are not columns, and refuses to drop every column.
\<close>

definition select :: "string list \<Rightarrow> dataframe \<Rightarrow> error + dataframe" where
  "select names df =
     (case find (\<lambda>n. n \<notin> set (columns df)) names of
        Some n \<Rightarrow> Inl (ColumnNotFound n)
      | None \<Rightarrow> Inr \<lparr>schema = map (\<lambda>n. (n, dtype_of df n)) names,
                       rows = map (\<lambda>r. map (cell_of (columns df) r) names) (rows df)\<rparr>)"

definition drop_columns :: "string list \<Rightarrow> dataframe \<Rightarrow> error + dataframe" where
  "drop_columns names df =
     (let keep_col_names = filter (\<lambda>c. c \<notin> set names) (columns df)
      in if keep_col_names = [] then Inl CannotDropAllColumns else select keep_col_names df)"

section \<open>Cleaner\<close>

subsection \<open>Filter\<close>

text \<open>
  \<^verbatim>\<open>df = df.filter(col('PRICE')<100000)\<close>

  The condition is evaluated by the warehouse: a comparison with NULL is NULL, and the
  filter keeps the rows whose condition is true. \<open>sql_lt\<close> is that three-valued
  comparison (\<open>None\<close> for NULL). A string cell in the compared column is outside the
  model (the warehouse would try to cast it); it compares as NULL.
\<close>

fun sql_lt :: "cell \<Rightarrow> int \<Rightarrow> bool option" where
  "sql_lt (NumV p) k = Some (p < k)"
| "sql_lt Null k = None"
| "sql_lt (StrV s) k = None"

definition price :: "dataframe \<Rightarrow> cell list \<Rightarrow> cell" where
  "price df r = cell_of (columns df) r ''PRICE''"

definition filter_price :: "dataframe \<Rightarrow> error + dataframe" where
  "filter_price df =
     (if ''PRICE'' \<notin> set (columns df) then Inl (ColumnNotFound ''PRICE'')
      else Inr (df\<lparr>rows := filter (\<lambda>r. sql_lt (price df r) 100000 = Some True) (rows df)\<rparr>))"

text \<open>The rows a stage removes, and the rows whose price is at least the threshold.\<close>

definition removed_rows :: "dataframe \<Rightarrow> dataframe \<Rightarrow> cell list list" where
  "removed_rows df df' = filter (\<lambda>r. r \<notin> set (rows df')) (rows df)"

fun price_ge :: "cell \<Rightarrow> int \<Rightarrow> bool" where
  "price_ge (NumV p) k = (k \<le> p)"
| "price_ge Null k = False"
| "price_ge (StrV s) k = False"

definition expensive_rows :: "dataframe \<Rightarrow> cell list list" where
  "expensive_rows df = filter (\<lambda>r. price_ge (price df r) 100000) (rows df)"

subsection \<open>Drop\<close>

text \<open>
  \<^verbatim>\<open>
  drop_cols = ["ID","URL", "REGION_URL", "IMAGE_URL", "DESCRIPTION", "VIN", "POSTING_DATE", 'COUNTY']
  df = df.drop(drop_cols)
  \<close>
\<close>

definition drop_cols :: "string list" where
  "drop_cols = [''ID'', ''URL'', ''REGION_URL'', ''IMAGE_URL'', ''DESCRIPTION'', ''VIN'',
                ''POSTING_DATE'', ''COUNTY'']"

definition drop_step :: "dataframe \<Rightarrow> error + dataframe" where
  "drop_step df = drop_columns drop_cols df"

subsection \<open>Fill\<close>

text \<open>
  \<^verbatim>\<open>
  string_type = df.select('REGION').schema[0].datatype
  string_cols = df.select([col.name for col in df.schema if col.datatype ==string_type]).columns
  non_string_cols = df.drop(string_cols).columns

  df = df.fillna("NA", subset=string_cols)
  df = df.fillna(0, subset= non_string_cols)
  \<close>
  The string type is read off the column REGION, and a column counts as a string column
  when its type equals that type, length included. \<^verbatim>\<open>fillna(value, subset)\<close>
  replaces the missing cells of the columns of its subset whose type matches the type of
  \<open>value\<close>: a string value matches a string column of any length, an integer value
  matches an integer or a floating point column and no other. It leaves the columns of
  another type as they are, returns the dataset itself for an empty subset and fails on
  a name that is not a column.
\<close>

fun value_matches :: "cell \<Rightarrow> dtype \<Rightarrow> bool" where
  "value_matches (StrV s) (StringType n) = True"
| "value_matches (NumV i) LongType = True"
| "value_matches (NumV i) DoubleType = True"
| "value_matches v t = False"

definition fill_cell :: "cell \<Rightarrow> string list \<Rightarrow> string \<times> dtype \<Rightarrow> cell \<Rightarrow> cell" where
  "fill_cell v subset_cols nt c =
     (if fst nt \<in> set subset_cols \<and> value_matches v (snd nt) \<and> c = Null then v else c)"

definition fillna :: "cell \<Rightarrow> string list \<Rightarrow> dataframe \<Rightarrow> error + dataframe" where
  "fillna v subset_cols df =
     (if subset_cols = [] then Inr df
      else case find (\<lambda>n. n \<notin> set (columns df)) subset_cols of
        Some n \<Rightarrow> Inl (ColumnNotFound n)
      | None \<Rightarrow> Inr (df\<lparr>rows := map (\<lambda>r. map2 (fill_cell v subset_cols) (schema df) r) (rows df)\<rparr>))"

definition string_type :: "dataframe \<Rightarrow> error + dtype" where
  "string_type df =
     (case map_of (schema df) ''REGION'' of
        None \<Rightarrow> Inl (ColumnNotFound ''REGION'')
      | Some t \<Rightarrow> Inr t)"

definition string_cols :: "dataframe \<Rightarrow> error + string list" where
  "string_cols df =
     (case string_type df of
        Inl e \<Rightarrow> Inl e
      | Inr st \<Rightarrow> Inr (map fst (filter (\<lambda>col. snd col = st) (schema df))))"

definition non_string_cols :: "dataframe \<Rightarrow> error + string list" where
  "non_string_cols df =
     (case string_cols df of
        Inl e \<Rightarrow> Inl e
      | Inr sc \<Rightarrow> (case drop_columns sc df of Inl e \<Rightarrow> Inl e | Inr d \<Rightarrow> Inr (columns d)))"

definition fill_step :: "dataframe \<Rightarrow> error + dataframe" where
  "fill_step df =
     (case string_cols df of
        Inl e \<Rightarrow> Inl e
      | Inr sc \<Rightarrow>
          (case non_string_cols df of
             Inl e \<Rightarrow> Inl e
           | Inr nsc \<Rightarrow>
               (case fillna (StrV ''NA'') sc df of
                  Inl e \<Rightarrow> Inl e
                | Inr df1 \<Rightarrow> fillna (NumV 0) nsc df1)))"

section \<open>Cardinality Reducer\<close>

text \<open>
  \<^verbatim>\<open>
  df_pd = df.to_pandas()
  top_n_models = df_pd.MODEL.value_counts().keys()[0:1000]
  df_pd['MODEL'] = df_pd.MODEL.apply(lambda x: x if x in top_n_models else 'INFREQUENT')
  df = session.create_dataframe(df_pd)
  \<close>
  \<^verbatim>\<open>value_counts\<close> leaves missing values out, counts each distinct value and orders
  the values by decreasing count. The order among values of equal count is the library's;
  here they stay in the order of their first occurrence.

  \<open>cardinality_reducer\<close> is the step on the table in memory, \<^verbatim>\<open>df_pd\<close>: the two
  lines between the conversions. The conversions \<^verbatim>\<open>df.to_pandas()\<close> and
  \<^verbatim>\<open>session.create_dataframe(df_pd)\<close> are the libraries' and are not modelled; they
  keep the strings of a string column, but they can change the type and the
  representation of a numeric column (an integer column that holds a missing value comes
  back as a floating point column).
\<close>

definition first_seen :: "'a list \<Rightarrow> 'a list" where
  "first_seen xs = rev (remdups (rev xs))"

definition value_counts :: "cell list \<Rightarrow> (cell \<times> nat) list" where
  "value_counts xs =
     sort_key (\<lambda>vc. - int (snd vc))
       (map (\<lambda>v. (v, count_list xs v)) (first_seen (filter (\<lambda>x. x \<noteq> Null) xs)))"

definition top_n_models :: "cell list \<Rightarrow> cell list" where
  "top_n_models xs = take 1000 (map fst (value_counts xs))"

definition infrequent :: cell where
  "infrequent = StrV ''INFREQUENT''"

definition remap :: "cell list \<Rightarrow> cell \<Rightarrow> cell" where
  "remap top_n x = (if x \<in> set top_n then x else infrequent)"

definition apply_model :: "(cell \<Rightarrow> cell) \<Rightarrow> string \<times> dtype \<Rightarrow> cell \<Rightarrow> cell" where
  "apply_model f nt c = (if fst nt = ''MODEL'' then f c else c)"

definition cardinality_reducer :: "dataframe \<Rightarrow> error + dataframe" where
  "cardinality_reducer df =
     (if ''MODEL'' \<notin> set (columns df) then Inl (ColumnNotFound ''MODEL'')
      else let top_n = top_n_models (column df ''MODEL'')
           in Inr (df\<lparr>rows := map (\<lambda>r. map2 (apply_model (remap top_n)) (schema df) r) (rows df)\<rparr>))"

section \<open>Volume Amplifier\<close>

text \<open>
  \<^verbatim>\<open>
  for i in range(1,3):
      df = df.unionAll(df)
  \<close>
  \<^verbatim>\<open>unionAll\<close> appends the rows of the second dataset to those of the first and keeps
  duplicates.
\<close>

definition unionAll :: "dataframe \<Rightarrow> dataframe \<Rightarrow> dataframe" where
  "unionAll a b = a\<lparr>rows := rows a @ rows b\<rparr>"

definition self_union :: "dataframe \<Rightarrow> dataframe" where
  "self_union df = unionAll df df"

definition volume_amplifier :: "dataframe \<Rightarrow> dataframe" where
  "volume_amplifier df = fold (\<lambda>i d. self_union d) [1..<3] df"

section \<open>Encoder\<close>

subsection \<open>Strings\<close>

text \<open>
  The column names are Python strings. \<open>find_char\<close> is \<^verbatim>\<open>str.find\<close> for a needle of
  one character (the index of its first occurrence, or \<open>-1\<close>), \<open>slice\<close> is
  \<^verbatim>\<open>s[a:b]\<close> (a negative index counts from the end, both indices are clamped to
  the string) and \<open>str_nat\<close> is \<^verbatim>\<open>str(n)\<close> for the index that
  \<^verbatim>\<open>enumerate\<close> yields.
\<close>

definition double_quote :: char where
  "double_quote = CHR 0x22"

definition underscore :: char where
  "underscore = CHR ''_''"

definition quoted :: "string \<Rightarrow> string" where
  "quoted s = double_quote # s @ [double_quote]"

fun find_char :: "char \<Rightarrow> string \<Rightarrow> int" where
  "find_char c [] = - 1"
| "find_char c (x # xs) =
     (if x = c then 0 else (let i = find_char c xs in if i < 0 then - 1 else i + 1))"

definition slice :: "string \<Rightarrow> int \<Rightarrow> int \<Rightarrow> string" where
  "slice s a b =
     (let n = int (length s);
          lo = (if a < 0 then max (a + n) 0 else min a n);
          hi = (if b < 0 then max (b + n) 0 else min b n)
      in take (nat (hi - lo)) (drop (nat lo) s))"

definition digit :: "nat \<Rightarrow> char" where
  "digit d = char_of (48 + d)"

fun str_nat :: "nat \<Rightarrow> string" where
  "str_nat n = (if n < 10 then [digit n] else str_nat (n div 10) @ [digit (n mod 10)])"

declare str_nat.simps [simp del]

subsection \<open>Renaming and sorting the columns\<close>

text \<open>
  \<^verbatim>\<open>
  renaming_dict = {}
  for n, col in enumerate(transformed_df.columns):
      double_quote_spot = col.find('"')
      if double_quote_spot==0:
          renaming_dict[col] = col[double_quote_spot+1:col.find("_")]+f"__{n}"
      else:
          renaming_dict[col] = col

  df_renamed = transformed_df.rename(renaming_dict)
  df_renamed = df_renamed.select(sorted(df_renamed.columns))
  \<close>
  The dictionary is an association list in insertion order; assigning to a key that is
  present replaces its value in place. \<^verbatim>\<open>rename\<close> refuses a dictionary that maps two
  keys to one name and a key that is not a column. \<^verbatim>\<open>sorted\<close> orders the names
  lexicographically by character code.
\<close>

definition new_name :: "nat \<Rightarrow> string \<Rightarrow> string" where
  "new_name n col =
     (let double_quote_spot = find_char double_quote col
      in if double_quote_spot = 0
         then slice col (double_quote_spot + 1) (find_char underscore col) @ ''__'' @ str_nat n
         else col)"

definition renaming_dict :: "string list \<Rightarrow> (string \<times> string) list" where
  "renaming_dict cols =
     fold (\<lambda>(n, col) d. AList.update col (new_name n col) d) (enumerate 0 cols) []"

text \<open>
  The columns that get a new name (those whose name begins with a double quote), and the
  names generated for them.
\<close>

definition is_renamed :: "string \<Rightarrow> bool" where
  "is_renamed col \<longleftrightarrow> find_char double_quote col = 0"

definition generated_names :: "string list \<Rightarrow> string list" where
  "generated_names cols =
     map (\<lambda>(n, col). new_name n col) (filter (\<lambda>(n, col). is_renamed col) (enumerate 0 cols))"

text \<open>
  A new column name is normalised as the library normalises an identifier
  (\<^verbatim>\<open>quote_name\<close>) and reported as \<^verbatim>\<open>df.columns\<close> reports it: a name
  already in double quotes is kept if its inner quotes are doubled and refused otherwise,
  a name that is an unquoted identifier is folded to upper case, any other name is put
  in double quotes with its quotes doubled; the quotes are left out in the report where
  they are not needed (an upper-case identifier, or a dollar sign and digits).
\<close>

definition is_upper :: "char \<Rightarrow> bool" where
  "is_upper c \<longleftrightarrow> CHR ''A'' \<le> c \<and> c \<le> CHR ''Z''"

definition is_lower :: "char \<Rightarrow> bool" where
  "is_lower c \<longleftrightarrow> CHR ''a'' \<le> c \<and> c \<le> CHR ''z''"

definition is_digit :: "char \<Rightarrow> bool" where
  "is_digit c \<longleftrightarrow> CHR ''0'' \<le> c \<and> c \<le> CHR ''9''"

definition to_upper :: "char \<Rightarrow> char" where
  "to_upper c = (if is_lower c then char_of (of_char c - (32 :: nat)) else c)"

definition unquoted_identifier :: "string \<Rightarrow> bool" where
  "unquoted_identifier s =
     (case s of
        [] \<Rightarrow> False
      | c # cs \<Rightarrow> (c = underscore \<or> is_upper c \<or> is_lower c)
          \<and> list_all (\<lambda>c. c = underscore \<or> is_upper c \<or> is_lower c \<or> is_digit c \<or> c = CHR ''$'') cs)"

definition plain_upper :: "string \<Rightarrow> bool" where
  "plain_upper s =
     (case s of
        [] \<Rightarrow> False
      | c # cs \<Rightarrow> (c = underscore \<or> is_upper c)
          \<and> list_all (\<lambda>c. c = underscore \<or> is_upper c \<or> is_digit c \<or> c = CHR ''$'') cs)"

definition dollar_digits :: "string \<Rightarrow> bool" where
  "dollar_digits s =
     (case s of [] \<Rightarrow> False | c # cs \<Rightarrow> c = CHR ''$'' \<and> cs \<noteq> [] \<and> list_all is_digit cs)"

definition already_quoted :: "string \<Rightarrow> bool" where
  "already_quoted s \<longleftrightarrow> 3 \<le> length s \<and> hd s = double_quote \<and> last s = double_quote"

fun remove_doubled :: "string \<Rightarrow> string" where
  "remove_doubled (a # b # cs) =
     (if a = double_quote \<and> b = double_quote then remove_doubled cs
      else a # remove_doubled (b # cs))"
| "remove_doubled cs = cs"

definition escape_quotes :: "string \<Rightarrow> string" where
  "escape_quotes s = concat (map (\<lambda>c. if c = double_quote then [double_quote, double_quote] else [c]) s)"

definition quote_name :: "string \<Rightarrow> error + string" where
  "quote_name name =
     (if already_quoted name
      then (if double_quote \<in> set (remove_doubled (butlast (tl name)))
            then Inl (InvalidIdentifier name) else Inr name)
      else if unquoted_identifier name then Inr (quoted (map to_upper name))
      else Inr (quoted (escape_quotes name)))"

definition strip_unnecessary_quotes :: "string \<Rightarrow> string" where
  "strip_unnecessary_quotes q =
     (if 2 \<le> length q \<and> hd q = double_quote \<and> last q = double_quote
         \<and> (plain_upper (butlast (tl q)) \<or> dollar_digits (butlast (tl q)))
      then butlast (tl q) else q)"

definition reported_name :: "string \<Rightarrow> error + string" where
  "reported_name name =
     (case quote_name name of Inl e \<Rightarrow> Inl e | Inr q \<Rightarrow> Inr (strip_unnecessary_quotes q))"

fun collect :: "(error + 'a) list \<Rightarrow> error + 'a list" where
  "collect [] = Inr []"
| "collect (x # xs) =
     (case x of
        Inl e \<Rightarrow> Inl e
      | Inr a \<Rightarrow> (case collect xs of Inl e \<Rightarrow> Inl e | Inr as \<Rightarrow> Inr (a # as)))"

definition renamed_column ::
  "(string \<times> string) list \<Rightarrow> string \<times> dtype \<Rightarrow> error + string \<times> dtype"
where
  "renamed_column mapper nt =
     (case map_of mapper (fst nt) of
        None \<Rightarrow> Inr nt
      | Some m \<Rightarrow> (case reported_name m of Inl e \<Rightarrow> Inl e | Inr w \<Rightarrow> Inr (w, snd nt)))"

definition rename :: "(string \<times> string) list \<Rightarrow> dataframe \<Rightarrow> error + dataframe" where
  "rename mapper df =
     (if \<not> distinct (map snd mapper) then Inl DuplicateColumnName
      else case find (\<lambda>k. k \<notin> set (columns df)) (map fst mapper) of
        Some k \<Rightarrow> Inl (ColumnNotFound k)
      | None \<Rightarrow>
          (case collect (map (renamed_column mapper) (schema df)) of
             Inl e \<Rightarrow> Inl e
           | Inr new_schema \<Rightarrow> Inr (df\<lparr>schema := new_schema\<rparr>)))"

definition rename_and_sort :: "dataframe \<Rightarrow> error + dataframe" where
  "rename_and_sort transformed_df =
     (case rename (renaming_dict (columns transformed_df)) transformed_df of
        Inl e \<Rightarrow> Inl e
      | Inr df_renamed \<Rightarrow> select (sort (columns df_renamed)) df_renamed)"

subsection \<open>The stage\<close>

text \<open>
  \<^verbatim>\<open>
  OHE_COLS = string_cols
  snowml_ohe = snowml.OneHotEncoder(input_cols=OHE_COLS, output_cols = OHE_COLS, drop_input_cols=True)
  transformed_df = snowml_ohe.fit(df).transform(df)
  \<close>
  The one-hot encoder is the modelling library's; the stage takes it as a parameter, with
  the list of columns to encode.
\<close>

definition encoder ::
  "(string list \<Rightarrow> dataframe \<Rightarrow> error + dataframe) \<Rightarrow> string list \<Rightarrow> dataframe
    \<Rightarrow> error + dataframe"
where
  "encoder one_hot_encoder OHE_COLS df =
     (case one_hot_encoder OHE_COLS df of
        Inl e \<Rightarrow> Inl e
      | Inr transformed_df \<Rightarrow> rename_and_sort transformed_df)"

text \<open>
  Modelled from the spec: the one-hot encoder (\<^verbatim>\<open>snowml.OneHotEncoder\<close>, fitted and
  applied to the same dataset), which is not part of the notebook. It "applies one-hot
  encoding to all string columns, producing new columns, dropping originals": every
  encoded column is replaced by one indicator column per distinct string it holds, named
  by the column and the category, in double quotes, and appended after the columns that
  are kept. The library's encoder refuses an empty list of input columns and a column
  that the dataset does not have.
\<close>

definition categories :: "cell list \<Rightarrow> string list" where
  "categories xs = sort (remdups (concat (map (\<lambda>x. case x of StrV s \<Rightarrow> [s] | _ \<Rightarrow> []) xs)))"

definition one_hot :: "string list \<Rightarrow> dataframe \<Rightarrow> error + dataframe" where
  "one_hot input_cols df =
     (if input_cols = [] then Inl InputColsNotSet
      else case find (\<lambda>n. n \<notin> set (columns df)) input_cols of
        Some n \<Rightarrow> Inl (ColumnNotFound n)
      | None \<Rightarrow>
          (let keep = filter (\<lambda>nt. fst nt \<notin> set input_cols) (schema df);
               new = concat (map (\<lambda>c. map (\<lambda>s. (c, s)) (categories (column df c))) input_cols)
           in Inr \<lparr>schema = keep @ map (\<lambda>cs. (quoted (fst cs @ ''_'' @ snd cs), LongType)) new,
                   rows = map (\<lambda>r. map (\<lambda>nt. cell_of (columns df) r (fst nt)) keep
                                   @ map (\<lambda>cs. NumV (if cell_of (columns df) r (fst cs) = StrV (snd cs)
                                                      then 1 else 0)) new)
                              (rows df)\<rparr>))"

section \<open>Trainer\<close>

text \<open>
  \<^verbatim>\<open>
  cpu_snowpark_xgb = XGBRegressor(
      input_cols=train.drop("PRICE").columns,
      label_cols=train.select("PRICE").columns,
      output_cols="PREDICTED_PRICE",
      tree_method="hist",
      predictor= "cpu_predictor",
      n_estimators=1000
  )
  gpu_snowpark_xgb = XGBRegressor(
      input_cols=train.drop("PRICE").columns,
      label_cols=train.select("PRICE").columns,
      output_cols="PREDICTED_PRICE",
      tree_method="gpu_hist",
      predictor= "gpu_predictor",
      n_estimators=1000
  )
  \<close>
  A configuration is the record of the arguments the constructor is given. The arguments
  are evaluated in order, so a failure of \<^verbatim>\<open>drop\<close> comes before one of
  \<^verbatim>\<open>select\<close>.
\<close>

record xgb_regressor =
  input_cols :: "string list"
  label_cols :: "string list"
  output_cols :: string
  tree_method :: string
  predictor :: string
  n_estimators :: nat

definition cpu_snowpark_xgb :: "dataframe \<Rightarrow> error + xgb_regressor" where
  "cpu_snowpark_xgb train =
     (case drop_columns [''PRICE''] train of
        Inl e \<Rightarrow> Inl e
      | Inr features \<Rightarrow>
          (case select [''PRICE''] train of
             Inl e \<Rightarrow> Inl e
           | Inr label \<Rightarrow>
               Inr \<lparr>input_cols = columns features,
                    label_cols = columns label,
                    output_cols = ''PREDICTED_PRICE'',
                    tree_method = ''hist'',
                    predictor = ''cpu_predictor'',
                    n_estimators = 1000\<rparr>))"

definition gpu_snowpark_xgb :: "dataframe \<Rightarrow> error + xgb_regressor" where
  "gpu_snowpark_xgb train =
     (case drop_columns [''PRICE''] train of
        Inl e \<Rightarrow> Inl e
      | Inr features \<Rightarrow>
          (case select [''PRICE''] train of
             Inl e \<Rightarrow> Inl e
           | Inr label \<Rightarrow>
               Inr \<lparr>input_cols = columns features,
                    label_cols = columns label,
                    output_cols = ''PREDICTED_PRICE'',
                    tree_method = ''gpu_hist'',
                    predictor = ''gpu_predictor'',
                    n_estimators = 1000\<rparr>))"

section \<open>Properties of the Cleaner\<close>

subsection \<open>Filter\<close>

lemma sql_lt_true: "sql_lt c k = Some True \<longleftrightarrow> (\<exists>p. c = NumV p \<and> p < k)"
  by (cases c) auto

lemma filter_price_columns: "filter_price df = Inr df' \<Longrightarrow> schema df' = schema df"
  by (auto simp: filter_price_def split: if_splits)

lemma filter_price_rows:
  "filter_price df = Inr df' \<Longrightarrow>
   rows df' = filter (\<lambda>r. \<exists>p. price df r = NumV p \<and> p < 100000) (rows df)"
  by (auto simp: filter_price_def sql_lt_true split: if_splits)

text \<open>
  Claim C1 (as amended). Every row that remains after the filter has a PRICE that is a
  number strictly less than 100000, and the filter keeps exactly those rows. It removes
  the rows whose PRICE is at least 100000 and also the rows whose PRICE is missing.
\<close>

theorem filter_price_keeps_below_threshold:
  assumes "filter_price df = Inr df'"
  shows "(\<forall>r \<in> set (rows df'). \<exists>p. price df' r = NumV p \<and> p < 100000)
       \<and> rows df' = filter (\<lambda>r. \<exists>p. price df r = NumV p \<and> p < 100000) (rows df)
       \<and> (\<forall>r \<in> set (rows df). price df r = Null \<or> price_ge (price df r) 100000
             \<longrightarrow> r \<in> set (removed_rows df df'))"
proof -
  have s: "schema df' = schema df"
    using assms by (rule filter_price_columns)
  have r: "rows df' = filter (\<lambda>r. \<exists>p. price df r = NumV p \<and> p < 100000) (rows df)"
    using assms by (rule filter_price_rows)
  have p: "price df' = price df"
    by (simp add: price_def columns_def s fun_eq_iff)
  have a: "\<forall>r \<in> set (rows df'). \<exists>p. price df' r = NumV p \<and> p < 100000"
    by (simp add: r p)
  have b: "\<forall>r \<in> set (rows df). price df r = Null \<or> price_ge (price df r) 100000
             \<longrightarrow> r \<in> set (removed_rows df df')"
    by (auto simp: removed_rows_def r)
  from a r b show ?thesis by blast
qed

theorem filter_price_keeps_below_threshold_witness:
  "filter_price \<lparr>schema = [(''PRICE'', LongType), (''MODEL'', StringType 100)],
                 rows = [[NumV 500, StrV ''a''], [NumV 100000, StrV ''b''], [Null, StrV ''c'']]\<rparr>
     = Inr \<lparr>schema = [(''PRICE'', LongType), (''MODEL'', StringType 100)],
            rows = [[NumV 500, StrV ''a'']]\<rparr>
   \<and> [NumV 100000, StrV ''b'']
       \<in> set (removed_rows
           \<lparr>schema = [(''PRICE'', LongType), (''MODEL'', StringType 100)],
            rows = [[NumV 500, StrV ''a''], [NumV 100000, StrV ''b''], [Null, StrV ''c'']]\<rparr>
           \<lparr>schema = [(''PRICE'', LongType), (''MODEL'', StringType 100)],
            rows = [[NumV 500, StrV ''a'']]\<rparr>)"
  (is "filter_price ?df = Inr ?out \<and> _")
proof -
  have h: "filter_price ?df = Inr ?out" by code_simp
  have "[NumV 100000, StrV ''b''] \<in> set (rows ?df)"
    and "price_ge (price ?df [NumV 100000, StrV ''b'']) 100000"
    by code_simp+
  with filter_price_keeps_below_threshold [OF h]
  have "[NumV 100000, StrV ''b''] \<in> set (removed_rows ?df ?out)"
    by blast
  with h show ?thesis by simp
qed

text \<open>
  The filter does not remove exactly the rows whose PRICE is at least 100000: a row whose
  PRICE is missing is removed as well.
\<close>

theorem filter_price_removes_missing_counterexample:
  "filter_price \<lparr>schema = [(''PRICE'', LongType)], rows = [[Null]]\<rparr>
     = Inr \<lparr>schema = [(''PRICE'', LongType)], rows = []\<rparr>
   \<and> removed_rows \<lparr>schema = [(''PRICE'', LongType)], rows = [[Null]]\<rparr>
        \<lparr>schema = [(''PRICE'', LongType)], rows = []\<rparr>
      \<noteq> expensive_rows \<lparr>schema = [(''PRICE'', LongType)], rows = [[Null]]\<rparr>"
  by (simp add: filter_price_def columns_def price_def cell_of_def removed_rows_def expensive_rows_def)

subsection \<open>Fill\<close>

lemma select_columns: "select names df = Inr d \<Longrightarrow> columns d = names"
  by (auto simp: select_def columns_def comp_def split: option.splits)

lemma drop_columns_columns:
  "drop_columns names df = Inr d \<Longrightarrow> columns d = filter (\<lambda>c. c \<notin> set names) (columns df)"
  by (auto simp: drop_columns_def Let_def select_columns split: if_splits)

text \<open>
  Claim C2 says that after the fill step no entry of any column is missing, that an entry
  which was missing equals the sentinel \<open>''NA''\<close> in a string-typed column and 0 in
  any other column; the comment of the cell says the same of the string and the numerical
  columns. The step as written does not do that. A string column whose declared length
  differs from that of REGION is not taken for a string column, so it is given the fill
  value 0, which does not match its type, and its missing entries stay missing. A decimal
  column is given the fill value 0 as well, an integer that matches integer and floating
  point columns only, and its missing entries stay missing too.
\<close>

theorem fill_step_leaves_missing:
  "fill_step \<lparr>schema = [(''REGION'', StringType 10), (''MODEL'', StringType 20)],
               rows = [[StrV ''ohio'', Null]]\<rparr>
     = Inr \<lparr>schema = [(''REGION'', StringType 10), (''MODEL'', StringType 20)],
            rows = [[StrV ''ohio'', Null]]\<rparr>
   \<and> fill_step \<lparr>schema = [(''REGION'', StringType 10), (''PRICE'', DecimalType 10 2)],
               rows = [[Null, Null]]\<rparr>
     = Inr \<lparr>schema = [(''REGION'', StringType 10), (''PRICE'', DecimalType 10 2)],
            rows = [[StrV ''NA'', Null]]\<rparr>"
  by code_simp

section \<open>Properties of the Cardinality Reducer\<close>

lemma map_of_zip_map2:
  assumes "\<And>t c. f (n, t) c = g c"
  shows "map_of (zip (map fst s) (map2 f s r)) n = map_option g (map_of (zip (map fst s) r) n)"
proof (induction s arbitrary: r)
  case Nil
  then show ?case by simp
next
  case (Cons nt s)
  show ?case
  proof (cases r)
    case Nil
    then show ?thesis by simp
  next
    case (Cons c r')
    with Cons.IH [of r'] assms show ?thesis
      by (cases nt) auto
  qed
qed

lemma cardinality_reducer_result:
  assumes "cardinality_reducer df = Inr df'"
  shows "''MODEL'' \<in> set (columns df)"
    and "schema df' = schema df"
    and "rows df' = map (\<lambda>r. map2 (apply_model (remap (top_n_models (column df ''MODEL''))))
                                 (schema df) r) (rows df)"
  using assms by (auto simp: cardinality_reducer_def Let_def split: if_splits)

lemma map_of_zip_covers:
  assumes "length r = length cs" and "n \<in> set cs"
  shows "\<exists>c. map_of (zip cs r) n = Some c"
  using assms by (induction r cs rule: list_induct2) auto

lemma cell_of_apply_model:
  assumes "length r = length s" and "''MODEL'' \<in> set (map fst s)"
  shows "cell_of (map fst s) (map2 (apply_model f) s r) ''MODEL''
       = f (cell_of (map fst s) r ''MODEL'')"
proof -
  have "map_of (zip (map fst s) (map2 (apply_model f) s r)) ''MODEL''
      = map_option f (map_of (zip (map fst s) r) ''MODEL'')"
    by (rule map_of_zip_map2) (simp add: apply_model_def)
  moreover obtain c where "map_of (zip (map fst s) r) ''MODEL'' = Some c"
    using map_of_zip_covers [of r "map fst s" "''MODEL''"] assms by auto
  ultimately show ?thesis
    by (simp add: cell_of_def)
qed

lemma column_reduced_model:
  assumes "well_formed df" and "cardinality_reducer df = Inr df'"
  shows "column df' ''MODEL'' = map (remap (top_n_models (column df ''MODEL''))) (column df ''MODEL'')"
proof -
  let ?top = "top_n_models (column df ''MODEL'')"
  note res = cardinality_reducer_result [OF assms(2)]
  have "cell_of (map fst (schema df)) (map2 (apply_model (remap ?top)) (schema df) r) ''MODEL''
      = remap ?top (cell_of (map fst (schema df)) r ''MODEL'')" if "r \<in> set (rows df)" for r
  proof (rule cell_of_apply_model)
    show "length r = length (schema df)"
      using that assms(1) by (simp add: well_formed_def)
    show "''MODEL'' \<in> set (map fst (schema df))"
      using res(1) by (simp add: columns_def)
  qed
  then show ?thesis
    unfolding column_def columns_def res(2,3) by simp
qed

lemma set_first_seen: "set (first_seen xs) = set xs"
  by (simp add: first_seen_def)

lemma distinct_first_seen: "distinct (first_seen xs)"
  by (simp add: first_seen_def)

lemma distinct_map_insort_key:
  "distinct (map g (insort_key k x xs)) \<longleftrightarrow> g x \<notin> g ` set xs \<and> distinct (map g xs)"
  by (induction xs) (auto simp: set_insort_key)

lemma distinct_map_sort_key:
  "distinct (map g (sort_key k xs)) \<longleftrightarrow> distinct (map g xs)"
  by (induction xs) (simp_all add: distinct_map_insort_key)

lemma keys_value_counts:
  "set (map fst (value_counts xs)) = set xs - {Null}"
  "distinct (map fst (value_counts xs))"
proof -
  let ?l = "map (\<lambda>v. (v, count_list xs v)) (first_seen (filter (\<lambda>x. x \<noteq> Null) xs))"
  have l: "map fst ?l = first_seen (filter (\<lambda>x. x \<noteq> Null) xs)"
    by (simp add: comp_def)
  have "set (map fst (value_counts xs)) = set (map fst ?l)"
    by (simp only: value_counts_def set_map set_sort)
  also have "\<dots> = set xs - {Null}"
    unfolding l by (auto simp: set_first_seen)
  finally show "set (map fst (value_counts xs)) = set xs - {Null}" .
  have "distinct (map fst (value_counts xs)) \<longleftrightarrow> distinct (map fst ?l)"
    unfolding value_counts_def by (rule distinct_map_sort_key)
  then show "distinct (map fst (value_counts xs))"
    unfolding l by (simp add: distinct_first_seen)
qed

lemma counts_value_counts:
  assumes "vc \<in> set (value_counts xs)"
  shows "snd vc = count_list xs (fst vc)"
  using assms by (auto simp: value_counts_def)

lemma sorted_value_counts:
  "sorted (map (\<lambda>vc. - int (snd vc)) (value_counts xs))"
  by (simp add: value_counts_def)

lemma sorted_take_drop:
  assumes "sorted (map k l)" and "a \<in> set (take n l)" and "b \<in> set (drop n l)"
  shows "k a \<le> k b"
proof -
  have "sorted (map k (take n l) @ map k (drop n l))"
    using assms(1) by (simp flip: map_append)
  with assms(2,3) show ?thesis
    by (auto simp: sorted_append)
qed

lemma top_n_models_props:
  shows "distinct (top_n_models xs)"
    and "set (top_n_models xs) \<subseteq> set xs - {Null}"
    and "length (top_n_models xs) = min 1000 (card (set xs - {Null}))"
proof -
  show "distinct (top_n_models xs)"
    by (simp add: top_n_models_def keys_value_counts(2) distinct_take)
  show "set (top_n_models xs) \<subseteq> set xs - {Null}"
    using set_take_subset [of 1000 "map fst (value_counts xs)"]
    by (simp only: top_n_models_def keys_value_counts(1))
  have "length (map fst (value_counts xs)) = card (set xs - {Null})"
    using keys_value_counts [of xs] by (metis distinct_card)
  then show "length (top_n_models xs) = min 1000 (card (set xs - {Null}))"
    by (simp add: top_n_models_def min.commute)
qed

lemma top_n_models_most_frequent:
  assumes "x \<in> set (top_n_models xs)" and "y \<in> set xs" and "y \<noteq> Null"
    and "y \<notin> set (top_n_models xs)"
  shows "count_list xs y \<le> count_list xs x"
proof -
  let ?vc = "value_counts xs"
  from assms(1) obtain a where a: "a \<in> set (take 1000 ?vc)" and ax: "fst a = x"
    by (auto simp: top_n_models_def take_map)
  from assms(2,3) have "y \<in> set (map fst ?vc)"
    unfolding keys_value_counts(1) by simp
  then obtain b where b: "b \<in> set ?vc" and bx: "fst b = y"
    by auto
  from assms(4) bx have "b \<notin> set (take 1000 ?vc)"
    by (auto simp: top_n_models_def take_map)
  with b have "b \<in> set (drop 1000 ?vc)"
    by (metis Un_iff append_take_drop_id set_append)
  with a sorted_value_counts [of xs] have "- int (snd a) \<le> - int (snd b)"
    using sorted_take_drop [of "\<lambda>vc. - int (snd vc)" "value_counts xs" a 1000 b] by simp
  moreover have "snd a = count_list xs x"
    using a ax counts_value_counts [of a xs] by (auto dest: in_set_takeD)
  moreover have "snd b = count_list xs y"
    using b bx counts_value_counts [of b xs] by auto
  ultimately show ?thesis
    by simp
qed

lemma set_map_remap:
  assumes "set top_n \<subseteq> set xs"
  shows "set (map (remap top_n) xs)
       = set top_n \<union> (if \<exists>x \<in> set xs. x \<notin> set top_n then {infrequent} else {})"
  using assms by (auto simp: remap_def)

text \<open>
  Claim C3 (as amended). After the Cardinality Reducer the set of distinct values of the
  MODEL column is the set of the 1000 most frequent input values, together with the
  sentinel \<open>''INFREQUENT''\<close> if and only if some input value (a missing one counts)
  lies outside that set. If no input value lies outside it, the sentinel appears only
  if it is itself one of the 1000 most frequent input values. The 1000 most frequent
  values are distinct values of the input column, as many as there are up to 1000, and
  none of the values left out occurs more often than one of them.
\<close>

theorem cardinality_reducer_distinct_values:
  assumes "well_formed df" and "cardinality_reducer df = Inr df'"
  shows "set (column df' ''MODEL'')
           = set (top_n_models (column df ''MODEL''))
             \<union> (if \<exists>x \<in> set (column df ''MODEL''). x \<notin> set (top_n_models (column df ''MODEL''))
                then {infrequent} else {})
       \<and> ((\<forall>x \<in> set (column df ''MODEL''). x \<in> set (top_n_models (column df ''MODEL'')))
            \<and> infrequent \<notin> set (top_n_models (column df ''MODEL''))
          \<longrightarrow> infrequent \<notin> set (column df' ''MODEL''))
       \<and> distinct (top_n_models (column df ''MODEL''))
       \<and> length (top_n_models (column df ''MODEL''))
           = min 1000 (card (set (column df ''MODEL'') - {Null}))
       \<and> set (top_n_models (column df ''MODEL'')) \<subseteq> set (column df ''MODEL'') - {Null}
       \<and> (\<forall>x \<in> set (top_n_models (column df ''MODEL'')). \<forall>y \<in> set (column df ''MODEL'').
            y \<noteq> Null \<and> y \<notin> set (top_n_models (column df ''MODEL''))
            \<longrightarrow> count_list (column df ''MODEL'') y \<le> count_list (column df ''MODEL'') x)"
proof -
  let ?xs = "column df ''MODEL''"
  let ?top = "top_n_models ?xs"
  have sub: "set ?top \<subseteq> set ?xs"
    using top_n_models_props(2) [of ?xs] by blast
  have out: "set (column df' ''MODEL'')
           = set ?top \<union> (if \<exists>x \<in> set ?xs. x \<notin> set ?top then {infrequent} else {})"
    unfolding column_reduced_model [OF assms] using sub by (rule set_map_remap)
  have absent: "(\<forall>x \<in> set ?xs. x \<in> set ?top) \<and> infrequent \<notin> set ?top
          \<longrightarrow> infrequent \<notin> set (column df' ''MODEL'')"
    unfolding out by auto
  have freq: "\<forall>x \<in> set ?top. \<forall>y \<in> set ?xs. y \<noteq> Null \<and> y \<notin> set ?top
            \<longrightarrow> count_list ?xs y \<le> count_list ?xs x"
    by (intro ballI impI top_n_models_most_frequent) simp_all
  show ?thesis
    by (intro conjI out absent freq top_n_models_props)
qed

theorem cardinality_reducer_distinct_values_witness:
  "well_formed \<lparr>schema = [(''MODEL'', StringType 100), (''PRICE'', LongType)],
                         rows = [[StrV ''f-150'', NumV 5], [Null, NumV 7]]\<rparr>
   \<and> cardinality_reducer \<lparr>schema = [(''MODEL'', StringType 100), (''PRICE'', LongType)],
                         rows = [[StrV ''f-150'', NumV 5], [Null, NumV 7]]\<rparr>
     = Inr \<lparr>schema = [(''MODEL'', StringType 100), (''PRICE'', LongType)],
            rows = [[StrV ''f-150'', NumV 5], [StrV ''INFREQUENT'', NumV 7]]\<rparr>
   \<and> set (column \<lparr>schema = [(''MODEL'', StringType 100), (''PRICE'', LongType)],
            rows = [[StrV ''f-150'', NumV 5], [StrV ''INFREQUENT'', NumV 7]]\<rparr> ''MODEL'')
     = {StrV ''f-150'', infrequent}"
  (is "well_formed ?df \<and> cardinality_reducer ?df = Inr ?out \<and> _")
proof -
  have h1: "well_formed ?df" by code_simp
  have h2: "cardinality_reducer ?df = Inr ?out" by code_simp
  have c: "column ?df ''MODEL'' = [StrV ''f-150'', Null]" by code_simp
  have t: "top_n_models [StrV ''f-150'', Null] = [StrV ''f-150'']" by code_simp
  from cardinality_reducer_distinct_values [OF h1 h2]
  have "set (column ?out ''MODEL'')
      = set (top_n_models (column ?df ''MODEL''))
        \<union> (if \<exists>x \<in> set (column ?df ''MODEL''). x \<notin> set (top_n_models (column ?df ''MODEL''))
           then {infrequent} else {})"
    by (rule conjunct1)
  then have "set (column ?out ''MODEL'') = {StrV ''f-150'', infrequent}"
    unfolding c t by auto
  with h1 h2 show ?thesis by simp
qed

text \<open>
  The sentinel can appear although no input value lies outside the most frequent ones:
  a model that is itself called \<open>''INFREQUENT''\<close> is kept as it is.
\<close>

theorem cardinality_reducer_sentinel_counterexample:
  "cardinality_reducer \<lparr>schema = [(''MODEL'', StringType 100)], rows = [[StrV ''INFREQUENT'']]\<rparr>
     = Inr \<lparr>schema = [(''MODEL'', StringType 100)], rows = [[StrV ''INFREQUENT'']]\<rparr>
   \<and> column \<lparr>schema = [(''MODEL'', StringType 100)], rows = [[StrV ''INFREQUENT'']]\<rparr> ''MODEL''
     = [StrV ''INFREQUENT'']
   \<and> top_n_models [StrV ''INFREQUENT''] = [StrV ''INFREQUENT'']"
  by code_simp

section \<open>Properties of the Volume Amplifier\<close>

lemma count_self_union: "count (self_union df) = 2 * count df"
  by (simp add: count_def self_union_def unionAll_def)

lemma count_self_union_iter: "count ((self_union ^^ k) df) = count df * 2 ^ k"
  by (induction k) (simp_all add: count_self_union)

lemma volume_amplifier_iter: "volume_amplifier df = (self_union ^^ 2) df"
proof -
  have "[1..<3] = [1, 2::nat]"
    by (simp add: upt_rec)
  then show ?thesis
    by (simp add: volume_amplifier_def numeral_2_eq_2)
qed

text \<open>
  Claim C4. After \<open>k\<close> self-union iterations the row count is the input row count times
  \<open>2 ^ k\<close>; the loop of the notebook runs two iterations, so its output has exactly four
  times the rows of its input.
\<close>

theorem volume_amplifier_row_count:
  "count ((self_union ^^ k) df) = count df * 2 ^ k
   \<and> volume_amplifier df = (self_union ^^ 2) df
   \<and> count (volume_amplifier df) = 4 * count df"
proof -
  have "count (volume_amplifier df) = count df * 2 ^ 2"
    unfolding volume_amplifier_iter by (rule count_self_union_iter)
  then show ?thesis
    by (simp add: count_self_union_iter volume_amplifier_iter)
qed

section \<open>Properties of the Encoder\<close>

subsection \<open>The renaming dictionary\<close>

lemma update_fresh: "k \<notin> fst ` set al \<Longrightarrow> AList.update k v al = al @ [(k, v)]"
  by (induction al) auto

lemma fold_update_fresh:
  assumes "distinct (map snd ps)" and "snd ` set ps \<inter> fst ` set d = {}"
  shows "fold (\<lambda>(n, col) d. AList.update col (g n col) d) ps d
       = d @ map (\<lambda>(n, col). (col, g n col)) ps"
  using assms
proof (induction ps arbitrary: d)
  case Nil
  then show ?case by simp
next
  case (Cons p ps)
  obtain n col where p: "p = (n, col)"
    by (cases p)
  from Cons.prems p have fresh: "col \<notin> fst ` set d"
    by auto
  have "snd ` set ps \<inter> fst ` set (d @ [(col, g n col)]) = {}"
    using Cons.prems p by auto
  with Cons.IH [of "d @ [(col, g n col)]"] Cons.prems
  have "fold (\<lambda>(n, col) d. AList.update col (g n col) d) ps (d @ [(col, g n col)])
      = (d @ [(col, g n col)]) @ map (\<lambda>(n, col). (col, g n col)) ps"
    by simp
  then show ?case
    by (simp add: p update_fresh [OF fresh])
qed

lemma map_snd_enumerate: "map snd (enumerate k xs) = xs"
  by (simp add: enumerate_eq_zip)

lemma renaming_dict_distinct:
  assumes "distinct cols"
  shows "renaming_dict cols = map (\<lambda>(n, col). (col, new_name n col)) (enumerate 0 cols)"
  unfolding renaming_dict_def
  using fold_update_fresh [of "enumerate 0 cols" "[]" new_name] assms
  by (simp add: map_snd_enumerate)

lemma renaming_dict_keys:
  assumes "distinct cols"
  shows "map fst (renaming_dict cols) = cols"
  by (simp add: renaming_dict_distinct [OF assms] comp_def case_prod_unfold map_snd_enumerate)

lemma renaming_dict_values:
  assumes "distinct cols"
  shows "map snd (renaming_dict cols) = map (\<lambda>i. new_name i (cols ! i)) [0..<length cols]"
proof (rule nth_equalityI)
  show "length (map snd (renaming_dict cols))
      = length (map (\<lambda>i. new_name i (cols ! i)) [0..<length cols])"
    by (simp add: renaming_dict_distinct [OF assms])
next
  fix i
  assume "i < length (map snd (renaming_dict cols))"
  then have i: "i < length cols"
    by (simp add: renaming_dict_distinct [OF assms])
  then show "map snd (renaming_dict cols) ! i
           = map (\<lambda>i. new_name i (cols ! i)) [0..<length cols] ! i"
    by (simp add: renaming_dict_distinct [OF assms] nth_enumerate_eq)
qed

lemma find_char_absent: "find_char c s < 0 \<longleftrightarrow> c \<notin> set s"
  by (induction s) (auto simp: Let_def)

lemma find_char_lower: "- 1 \<le> find_char c s"
  by (induction s) (auto simp: Let_def)

lemma find_char_present:
  assumes "c \<in> set s"
  shows "0 \<le> find_char c s \<and> find_char c s < int (length s)
       \<and> c \<notin> set (take (nat (find_char c s)) s)"
  using assms
proof (induction s)
  case Nil
  then show ?case by simp
next
  case (Cons x s)
  show ?case
  proof (cases "x = c")
    case True
    then show ?thesis by simp
  next
    case False
    with Cons.prems have in_s: "c \<in> set s"
      by simp
    then have nneg: "\<not> find_char c s < 0"
      by (simp add: find_char_absent)
    from Cons.IH [OF in_s] have ih: "0 \<le> find_char c s" "find_char c s < int (length s)"
      "c \<notin> set (take (nat (find_char c s)) s)"
      by simp_all
    have "nat (find_char c s + 1) = Suc (nat (find_char c s))"
      using ih(1) by simp
    with False nneg ih show ?thesis
      by (simp add: Let_def)
  qed
qed

lemma slice_excludes:
  assumes "0 \<le> a"
  shows "c \<notin> set (slice s a (find_char c s))"
proof (cases "c \<in> set s")
  case False
  have "set (slice s a b) \<subseteq> set s" for b
    unfolding slice_def Let_def
    by (meson set_drop_subset set_take_subset subset_trans)
  with False show ?thesis
    by blast
next
  case True
  let ?p = "find_char c s"
  from find_char_present [OF True]
  have p: "0 \<le> ?p" "?p < int (length s)" "c \<notin> set (take (nat ?p) s)"
    by simp_all
  let ?lo = "min a (int (length s))"
  have "slice s a ?p = take (nat (?p - ?lo)) (drop (nat ?lo) s)"
    using assms p by (simp add: slice_def Let_def min_def)
  also have "\<dots> = drop (nat ?lo) (take (nat ?p) s)"
  proof -
    have "nat (?p - ?lo) = nat ?p - nat ?lo"
      using assms p by (simp add: nat_diff_distrib')
    then show ?thesis
      by (simp add: drop_take)
  qed
  finally have "set (slice s a ?p) \<subseteq> set (take (nat ?p) s)"
    by (simp add: set_drop_subset)
  with p(3) show ?thesis
    by blast
qed

lemma split_at_separator:
  assumes "c \<notin> set a" and "c \<notin> set b" and "a @ c # u = b @ c # v"
  shows "a = b \<and> u = v"
  using assms
proof (induction a arbitrary: b)
  case Nil
  then show ?case by (cases b) auto
next
  case (Cons x a)
  then show ?case by (cases b) auto
qed

lemma digit_inj:
  assumes "a < 10" and "b < 10" and "digit a = digit b"
  shows "a = b"
proof -
  from assms(3) have "(of_char (char_of (48 + a)) :: nat) = of_char (char_of (48 + b))"
    by (simp add: digit_def)
  with assms(1,2) show ?thesis
    by simp
qed

lemma str_nat_nonempty: "str_nat n \<noteq> []"
  by (subst str_nat.simps) simp

lemma str_nat_inj: "str_nat n = str_nat m \<Longrightarrow> n = m"
proof (induction n arbitrary: m rule: str_nat.induct)
  case (1 n)
  show ?case
  proof (cases "n < 10")
    case small_n: True
    show ?thesis
    proof (cases "m < 10")
      case True
      with small_n "1.prems" show ?thesis
        by (simp add: str_nat.simps [of n] str_nat.simps [of m] digit_inj)
    next
      case False
      with small_n "1.prems" str_nat_nonempty [of "m div 10"] show ?thesis
        by (simp add: str_nat.simps [of n] str_nat.simps [of m])
    qed
  next
    case big_n: False
    show ?thesis
    proof (cases "m < 10")
      case True
      with big_n "1.prems" str_nat_nonempty [of "n div 10"] show ?thesis
        by (simp add: str_nat.simps [of n] str_nat.simps [of m])
    next
      case False
      with big_n "1.prems"
      have eq: "str_nat (n div 10) = str_nat (m div 10)" "digit (n mod 10) = digit (m mod 10)"
        by (simp_all add: str_nat.simps [of n] str_nat.simps [of m])
      from "1.IH" [OF big_n eq(1)] have "n div 10 = m div 10" .
      moreover from eq(2) have "n mod 10 = m mod 10"
        by (intro digit_inj) simp_all
      ultimately show ?thesis
        by (metis div_mult_mod_eq)
    qed
  qed
qed

lemma new_name_renamed:
  assumes "is_renamed col"
  shows "new_name n col = slice col 1 (find_char underscore col) @ underscore # underscore # str_nat n"
  using assms by (simp add: new_name_def is_renamed_def underscore_def)

lemma new_name_kept: "\<not> is_renamed col \<Longrightarrow> new_name n col = col"
  by (simp add: new_name_def is_renamed_def)

lemma new_name_renamed_inj:
  assumes "is_renamed a" and "is_renamed b" and "new_name i a = new_name j b"
  shows "i = j"
proof -
  have "slice a 1 (find_char underscore a) @ underscore # (underscore # str_nat i)
      = slice b 1 (find_char underscore b) @ underscore # (underscore # str_nat j)"
    using assms by (simp add: new_name_renamed)
  then have "underscore # str_nat i = underscore # str_nat j"
    using split_at_separator [OF slice_excludes slice_excludes] by (metis zero_le_one)
  then show ?thesis
    by (simp add: str_nat_inj)
qed

lemma distinct_values_key:
  assumes "distinct (map snd al)" and "(a, v) \<in> set al" and "(b, v) \<in> set al"
  shows "a = b"
  using assms by (induction al) (auto simp: image_iff)

lemma inj_on_map_of:
  assumes "distinct (map fst al)" and "distinct (map snd al)"
  shows "inj_on (map_of al) (fst ` set al)"
proof (rule inj_onI)
  fix a b
  assume a: "a \<in> fst ` set al" and b: "b \<in> fst ` set al" and eq: "map_of al a = map_of al b"
  from a obtain va where va: "(a, va) \<in> set al" by auto
  from b obtain vb where vb: "(b, vb) \<in> set al" by auto
  from assms(1) va vb have "map_of al a = Some va" "map_of al b = Some vb"
    by simp_all
  with eq have "va = vb" by simp
  with assms(2) va vb show "a = b"
    by (auto dest: distinct_values_key)
qed

text \<open>
  Claim C7 (as amended). For distinct column names, the renaming dictionary has one entry
  per column, and it is injective provided no column that keeps its name is called like
  one of the generated names. Two renamed columns never collide: a generated name ends
  with the index of its column after the first underscore.
\<close>

theorem renaming_dict_injective:
  assumes "distinct cols"
    and "\<forall>c \<in> set cols. \<not> is_renamed c \<longrightarrow> c \<notin> set (generated_names cols)"
  shows "map fst (renaming_dict cols) = cols
       \<and> map snd (renaming_dict cols) = map (\<lambda>i. new_name i (cols ! i)) [0..<length cols]
       \<and> distinct (map snd (renaming_dict cols))
       \<and> inj_on (map_of (renaming_dict cols)) (set cols)
       \<and> (\<forall>i j a b. is_renamed a \<and> is_renamed b \<and> new_name i a = new_name j b \<longrightarrow> i = j)"
proof -
  note keys = renaming_dict_keys [OF assms(1)]
  note vals = renaming_dict_values [OF assms(1)]
  have cross: "new_name i (cols ! i) \<noteq> cols ! j"
    if "i < length cols" and "j < length cols" and "is_renamed (cols ! i)"
      and "\<not> is_renamed (cols ! j)" for i j
  proof -
    have "(i, cols ! i) \<in> set (enumerate 0 cols)"
      using that(1) by (simp add: in_set_enumerate_eq)
    with that(3) have "new_name i (cols ! i) \<in> set (generated_names cols)"
      by (force simp: generated_names_def)
    moreover have "cols ! j \<notin> set (generated_names cols)"
      using assms(2) that(2,4) by simp
    ultimately show ?thesis
      by metis
  qed
  have ne: "new_name i (cols ! i) \<noteq> new_name j (cols ! j)"
    if "i < length cols" and "j < length cols" and "i \<noteq> j" for i j
  proof (cases "is_renamed (cols ! i)")
    case ri: True
    show ?thesis
    proof (cases "is_renamed (cols ! j)")
      case True
      with ri that(3) show ?thesis
        by (auto dest: new_name_renamed_inj)
    next
      case False
      with ri that(1,2) cross [of i j] show ?thesis
        by (simp add: new_name_kept)
    qed
  next
    case ki: False
    show ?thesis
    proof (cases "is_renamed (cols ! j)")
      case True
      with ki that(1,2) cross [of j i] show ?thesis
        by (simp add: new_name_kept)
    next
      case False
      with ki that assms(1) show ?thesis
        by (simp add: new_name_kept nth_eq_iff_index_eq)
    qed
  qed
  have d: "distinct (map snd (renaming_dict cols))"
    unfolding vals by (auto simp: distinct_map inj_on_def dest: ne)
  have "inj_on (map_of (renaming_dict cols)) (fst ` set (renaming_dict cols))"
    using assms(1) d by (intro inj_on_map_of) (simp_all add: keys)
  moreover have "fst ` set (renaming_dict cols) = set cols"
    using keys by (metis set_map)
  ultimately have inj: "inj_on (map_of (renaming_dict cols)) (set cols)"
    by simp
  have suffix: "\<forall>i j a b. is_renamed a \<and> is_renamed b \<and> new_name i a = new_name j b \<longrightarrow> i = j"
    by (auto dest: new_name_renamed_inj)
  show ?thesis
    by (intro conjI keys vals d inj suffix)
qed

theorem renaming_dict_injective_witness:
  "distinct [quoted ''REGION_albany'', quoted ''REGION_auburn'', ''PRICE'']
   \<and> renaming_dict [quoted ''REGION_albany'', quoted ''REGION_auburn'', ''PRICE'']
     = [(quoted ''REGION_albany'', ''REGION__0''), (quoted ''REGION_auburn'', ''REGION__1''),
        (''PRICE'', ''PRICE'')]
   \<and> distinct (map snd (renaming_dict [quoted ''REGION_albany'', quoted ''REGION_auburn'', ''PRICE'']))"
  (is "distinct ?cols \<and> _ \<and> _")
proof -
  have h1: "distinct ?cols" by code_simp
  have h2: "\<forall>c \<in> set ?cols. \<not> is_renamed c \<longrightarrow> c \<notin> set (generated_names ?cols)"
    by code_simp
  have h3: "renaming_dict ?cols
     = [(quoted ''REGION_albany'', ''REGION__0''), (quoted ''REGION_auburn'', ''REGION__1''),
        (''PRICE'', ''PRICE'')]" by code_simp
  from renaming_dict_injective [OF h1 h2] have "distinct (map snd (renaming_dict ?cols))"
    by blast
  with h1 h3 show ?thesis by blast
qed

text \<open>
  Without the proviso two distinct columns can get one name: the renamed column at index
  0 collides with a column that is already called like its generated name.
\<close>

theorem renaming_dict_collision_counterexample:
  "distinct [quoted ''X_a'', ''X__0'']
   \<and> map_of (renaming_dict [quoted ''X_a'', ''X__0'']) (quoted ''X_a'') = Some ''X__0''
   \<and> map_of (renaming_dict [quoted ''X_a'', ''X__0'']) ''X__0'' = Some ''X__0''"
  by code_simp

subsection \<open>Running the stage on its own output\<close>

lemma collect_map_Inr:
  assumes "collect (map f xs) = Inr ys"
  shows "list_all2 (\<lambda>x y. f x = Inr y) xs ys"
  using assms
proof (induction xs arbitrary: ys)
  case Nil
  then show ?case by simp
next
  case (Cons x xs)
  then show ?case
    by (auto split: sum.splits)
qed

lemma collect_map_id:
  assumes "\<forall>x \<in> set xs. f x = Inr x"
  shows "collect (map f xs) = Inr xs"
  using assms by (induction xs) simp_all

lemma fold_update_dom:
  "fst ` set (fold (\<lambda>(n, col) d. AList.update col (g n col) d) ps d)
     = fst ` set d \<union> snd ` set ps"
proof (induction ps arbitrary: d)
  case Nil
  then show ?case by simp
next
  case (Cons p ps)
  obtain n col where p: "p = (n, col)"
    by (cases p)
  show ?case
    by (auto simp: p Cons.IH dom_update)
qed

lemma renaming_dict_dom: "fst ` set (renaming_dict cols) = set cols"
proof -
  have "snd ` set (enumerate 0 cols) = set cols"
    by (metis map_snd_enumerate set_map)
  then show ?thesis
    by (simp add: renaming_dict_def fold_update_dom)
qed

lemma rename_result:
  assumes "rename mapper df = Inr d"
  shows "rows d = rows df"
    and "list_all2 (\<lambda>nt nt'. renamed_column mapper nt = Inr nt') (schema df) (schema d)"
proof -
  from assms obtain new_schema where
    c: "collect (map (renamed_column mapper) (schema df)) = Inr new_schema"
    and d: "d = df\<lparr>schema := new_schema\<rparr>"
    by (auto simp: rename_def split: if_splits option.splits sum.splits)
  from d show "rows d = rows df"
    by simp
  from c d show "list_all2 (\<lambda>nt nt'. renamed_column mapper nt = Inr nt') (schema df) (schema d)"
    by (simp add: collect_map_Inr)
qed

lemma rename_reports:
  assumes "rename mapper df = Inr d" and "set (columns df) \<subseteq> fst ` set mapper"
    and "c \<in> set (columns d)"
  shows "\<exists>v. reported_name v = Inr c"
proof -
  from assms(3) obtain t where "(c, t) \<in> set (schema d)"
    by (auto simp: columns_def)
  then obtain i where i: "i < length (schema d)" and ct: "schema d ! i = (c, t)"
    by (auto simp: in_set_conv_nth)
  from rename_result(2) [OF assms(1)]
  have len: "length (schema df) = length (schema d)"
    and all: "\<forall>i < length (schema df). renamed_column mapper (schema df ! i) = Inr (schema d ! i)"
    by (simp_all add: list_all2_conv_all_nth)
  define nt where "nt = schema df ! i"
  have nt: "nt \<in> set (schema df)" and r: "renamed_column mapper nt = Inr (c, t)"
    using i len all ct by (simp_all add: nt_def)
  from nt assms(2) have "fst nt \<in> fst ` set mapper"
    by (auto simp: columns_def)
  then obtain m where "map_of mapper (fst nt) = Some m"
    by (metis domD dom_map_of_conv_image_fst)
  with r have "reported_name m = Inr c"
    by (auto simp: renamed_column_def split: sum.splits)
  then show ?thesis ..
qed


lemma is_renamed_iff: "is_renamed w \<longleftrightarrow> w \<noteq> [] \<and> hd w = double_quote"
proof (cases w)
  case Nil
  then show ?thesis by (simp add: is_renamed_def)
next
  case (Cons c cs)
  have "find_char double_quote cs + 1 \<noteq> 0" if "\<not> find_char double_quote cs < 0"
    using that by simp
  then show ?thesis
    by (auto simp: Cons is_renamed_def Let_def)
qed

lemma upper_not_lower: "is_upper c \<Longrightarrow> \<not> is_lower c"
  by (auto simp: is_upper_def is_lower_def less_eq_char_def)

lemma digit_not_lower: "is_digit c \<Longrightarrow> \<not> is_lower c"
  by (auto simp: is_digit_def is_lower_def less_eq_char_def)

lemma to_upper_fixed: "\<not> is_lower c \<Longrightarrow> to_upper c = c"
  by (simp add: to_upper_def)

lemma plain_upper_props:
  assumes "plain_upper w"
  shows "w \<noteq> []" and "hd w \<noteq> double_quote" and "unquoted_identifier w"
    and "map to_upper w = w"
proof -
  from assms obtain c cs where w: "w = c # cs"
    and c: "c = underscore \<or> is_upper c"
    and cs: "list_all (\<lambda>c. c = underscore \<or> is_upper c \<or> is_digit c \<or> c = CHR ''$'') cs"
    by (auto simp: plain_upper_def split: list.splits)
  show "w \<noteq> []"
    by (simp add: w)
  show "hd w \<noteq> double_quote"
    using c by (auto simp: w underscore_def double_quote_def is_upper_def)
  show "unquoted_identifier w"
    using c cs by (auto simp: w unquoted_identifier_def list_all_iff)
  have "\<not> is_lower x" if "x \<in> set w" for x
  proof -
    from that c cs
    have "x = underscore \<or> is_upper x \<or> is_digit x \<or> x = CHR ''$''"
      by (auto simp: w list_all_iff)
    moreover have "\<not> is_lower underscore" and "\<not> is_lower CHR ''$''"
      by (simp_all add: underscore_def is_lower_def)
    ultimately show ?thesis
      using upper_not_lower digit_not_lower by blast
  qed
  then show "map to_upper w = w"
    by (simp add: map_idI to_upper_fixed)
qed

lemma dollar_digits_props:
  assumes "dollar_digits w"
  shows "w \<noteq> []" and "hd w \<noteq> double_quote" and "\<not> unquoted_identifier w"
    and "escape_quotes w = w"
proof -
  from assms obtain cs where w: "w = CHR ''$'' # cs" and cs: "list_all is_digit cs"
    by (auto simp: dollar_digits_def split: list.splits)
  show "w \<noteq> []"
    by (simp add: w)
  show "hd w \<noteq> double_quote"
    by (simp add: w double_quote_def)
  show "\<not> unquoted_identifier w"
    by (simp add: w unquoted_identifier_def underscore_def is_upper_def is_lower_def)
  have "x \<noteq> double_quote" if "x \<in> set w" for x
    using that cs by (auto simp: w list_all_iff double_quote_def is_digit_def)
  then have "map (\<lambda>c. if c = double_quote then [double_quote, double_quote] else [c]) w
           = map (\<lambda>c. [c]) w"
    by (intro map_cong) auto
  then show "escape_quotes w = w"
    by (simp add: escape_quotes_def) (induction w, simp_all)
qed

lemma strip_quoted:
  assumes "plain_upper w \<or> dollar_digits w"
  shows "strip_unnecessary_quotes (quoted w) = w"
  using assms by (simp add: strip_unnecessary_quotes_def quoted_def butlast_append)

lemma quote_name_quoted:
  assumes "quote_name v = Inr q"
  shows "q \<noteq> [] \<and> hd q = double_quote"
  using assms
  by (auto simp: quote_name_def already_quoted_def quoted_def split: if_splits)

lemma reported_name_plain:
  assumes "plain_upper w \<or> dollar_digits w"
  shows "reported_name w = Inr w"
proof (cases "plain_upper w")
  case True
  note p = plain_upper_props [OF True]
  from p(2) have "\<not> already_quoted w"
    by (simp add: already_quoted_def)
  with p(3,4) have "quote_name w = Inr (quoted w)"
    by (simp add: quote_name_def)
  with assms show ?thesis
    by (simp add: reported_name_def strip_quoted)
next
  case False
  with assms have d: "dollar_digits w"
    by simp
  note p = dollar_digits_props [OF d]
  from p(2) have "\<not> already_quoted w"
    by (simp add: already_quoted_def)
  with p(3,4) have "quote_name w = Inr (quoted w)"
    by (simp add: quote_name_def)
  with assms show ?thesis
    by (simp add: reported_name_def strip_quoted)
qed

lemma reported_name_fixed:
  assumes "reported_name v = Inr w" and "\<not> is_renamed w"
  shows "reported_name w = Inr w"
proof -
  from assms(1) obtain q where q: "quote_name v = Inr q" and w: "w = strip_unnecessary_quotes q"
    by (auto simp: reported_name_def split: sum.splits)
  from quote_name_quoted [OF q] assms(2) have "w \<noteq> q"
    by (auto simp: is_renamed_iff)
  with w have "plain_upper w \<or> dollar_digits w"
    by (auto simp: strip_unnecessary_quotes_def split: if_splits)
  then show ?thesis
    by (rule reported_name_plain)
qed

lemma update_identity:
  assumes "map snd al = map fst al"
  shows "map snd (AList.update k k al) = map fst (AList.update k k al)"
  using assms by (induction al) auto

lemma fold_update_identity:
  assumes "\<forall>p \<in> set ps. \<not> is_renamed (snd p) \<and> snd p \<in> S"
    and "map snd d = map fst d" and "distinct (map fst d)" and "fst ` set d \<subseteq> S"
  shows "map snd (fold (\<lambda>(n, col) d. AList.update col (new_name n col) d) ps d)
           = map fst (fold (\<lambda>(n, col) d. AList.update col (new_name n col) d) ps d)
       \<and> distinct (map fst (fold (\<lambda>(n, col) d. AList.update col (new_name n col) d) ps d))
       \<and> fst ` set (fold (\<lambda>(n, col) d. AList.update col (new_name n col) d) ps d) \<subseteq> S"
  using assms
proof (induction ps arbitrary: d)
  case Nil
  then show ?case by simp
next
  case (Cons p ps)
  obtain n col where p: "p = (n, col)"
    by (cases p)
  from Cons.prems(1) p have col: "new_name n col = col" "col \<in> S"
    by (simp_all add: new_name_kept)
  let ?d = "AList.update col col d"
  have "map snd ?d = map fst ?d"
    using Cons.prems(2) by (rule update_identity)
  moreover have "distinct (map fst ?d)"
    using Cons.prems(3) by (rule distinct_update)
  moreover have "fst ` set ?d \<subseteq> S"
    using Cons.prems(4) col(2) by (simp add: dom_update)
  moreover have "\<forall>p \<in> set ps. \<not> is_renamed (snd p) \<and> snd p \<in> S"
    using Cons.prems(1) by simp
  ultimately show ?case
    using Cons.IH [of ?d] by (simp add: p col(1))
qed

lemma renaming_dict_identity:
  assumes "\<forall>c \<in> set cols. \<not> is_renamed c"
  shows "map snd (renaming_dict cols) = map fst (renaming_dict cols)"
    and "distinct (map fst (renaming_dict cols))"
    and "fst ` set (renaming_dict cols) \<subseteq> set cols"
proof -
  have "\<forall>p \<in> set (enumerate 0 cols). \<not> is_renamed (snd p) \<and> snd p \<in> set cols"
    using assms by (auto simp: in_set_enumerate_eq)
  from fold_update_identity [OF this, of "[]"]
  show "map snd (renaming_dict cols) = map fst (renaming_dict cols)"
    and "distinct (map fst (renaming_dict cols))"
    and "fst ` set (renaming_dict cols) \<subseteq> set cols"
    by (simp_all add: renaming_dict_def)
qed

lemma identity_pairs:
  assumes "map snd al = map fst al" and "(k, v) \<in> set al"
  shows "v = k"
  using assms by (induction al) auto

lemma rename_identity:
  assumes "map snd mapper = map fst mapper" and "distinct (map fst mapper)"
    and "fst ` set mapper \<subseteq> set (columns df)"
    and "\<forall>c \<in> set (columns df). reported_name c = Inr c"
  shows "rename mapper df = Inr df"
proof -
  have "find (\<lambda>k. k \<notin> set (columns df)) (map fst mapper) = None"
    using assms(3) by (auto simp: find_None_iff)
  moreover have "distinct (map snd mapper)"
    unfolding assms(1) by (rule assms(2))
  moreover have "renamed_column mapper nt = Inr nt" if "nt \<in> set (schema df)" for nt
  proof (cases "map_of mapper (fst nt)")
    case None
    then show ?thesis
      by (simp add: renamed_column_def)
  next
    case (Some m)
    then have "m = fst nt"
      using assms(1) by (auto dest!: map_of_SomeD identity_pairs)
    moreover have "reported_name (fst nt) = Inr (fst nt)"
      using assms(4) that by (simp add: columns_def)
    ultimately show ?thesis
      using Some by (simp add: renamed_column_def)
  qed
  then have "collect (map (renamed_column mapper) (schema df)) = Inr (schema df)"
    by (intro collect_map_id) simp
  ultimately show ?thesis
    by (simp add: rename_def)
qed

lemma select_result:
  assumes "select names d = Inr out"
  shows "schema out = map (\<lambda>n. (n, dtype_of d n)) names"
    and "rows out = map (\<lambda>r. map (cell_of (columns d) r) names) (rows d)"
  using assms by (auto simp: select_def split: option.splits)

lemma map_of_tabulate: "n \<in> set ns \<Longrightarrow> map_of (map (\<lambda>n. (n, f n)) ns) n = Some (f n)"
  by (induction ns) auto

lemma cell_of_tabulate: "n \<in> set ns \<Longrightarrow> cell_of ns (map f ns) n = f n"
  by (simp add: cell_of_def map_of_zip_map)

lemma select_fixed:
  assumes "schema out = map (\<lambda>n. (n, dt n)) ns"
    and "\<forall>r \<in> set (rows out). \<exists>f. r = map f ns"
  shows "select ns out = Inr out"
proof -
  have cols: "columns out = ns"
    by (simp add: columns_def assms(1) comp_def)
  have "find (\<lambda>n. n \<notin> set (columns out)) ns = None"
    by (simp add: cols find_None_iff)
  moreover have "map (\<lambda>n. (n, dtype_of out n)) ns = schema out"
    unfolding assms(1) by (rule map_cong) (simp_all add: dtype_of_def assms(1) map_of_tabulate)
  moreover have "map (\<lambda>r. map (cell_of (columns out) r) ns) (rows out) = rows out"
  proof (rule map_idI)
    fix r
    assume "r \<in> set (rows out)"
    with assms(2) obtain f where r: "r = map f ns"
      by blast
    show "map (cell_of (columns out) r) ns = r"
      unfolding r cols by (rule map_cong) (simp_all add: cell_of_tabulate)
  qed
  ultimately show ?thesis
    by (simp add: select_def)
qed

text \<open>
  Claim C5 (as amended). Applying the column renaming and the lexicographic column sort
  of the Encoder to a dataset that is already the output of the Encoder leaves the
  dataset unchanged, provided no column name of that output begins with a double quote.
  The one-hot encoding does not take part in this: it cannot be applied to the output
  again.
\<close>

theorem encoder_rename_and_sort_fixed_point:
  assumes "encoder one_hot_encoder OHE_COLS df = Inr out"
    and "\<forall>c \<in> set (columns out). \<not> is_renamed c"
  shows "rename_and_sort out = Inr out"
proof -
  from assms(1) obtain transformed_df df_renamed where
    ren: "rename (renaming_dict (columns transformed_df)) transformed_df = Inr df_renamed"
    and sel: "select (sort (columns df_renamed)) df_renamed = Inr out"
    by (auto simp: encoder_def rename_and_sort_def split: sum.splits)
  let ?ns = "sort (columns df_renamed)"
  note out = select_result [OF sel]
  have cols: "columns out = ?ns"
    by (simp add: columns_def out(1) comp_def)
  have reported: "reported_name c = Inr c" if "c \<in> set (columns out)" for c
  proof -
    from that have "c \<in> set (columns df_renamed)"
      by (simp add: cols)
    moreover have "set (columns transformed_df) \<subseteq> fst ` set (renaming_dict (columns transformed_df))"
      by (simp add: renaming_dict_dom)
    ultimately have "\<exists>v. reported_name v = Inr c"
      using ren by (intro rename_reports)
    with assms(2) that show ?thesis
      by (auto dest: reported_name_fixed)
  qed
  have "rename (renaming_dict (columns out)) out = Inr out"
    using renaming_dict_identity [OF assms(2)] reported by (intro rename_identity) simp_all
  moreover have "select (sort (columns out)) out = Inr out"
  proof -
    have "sort (columns out) = ?ns"
      unfolding cols by (simp add: sorted_sort_id)
    moreover have "select ?ns out = Inr out"
      using out(1) by (rule select_fixed) (auto simp: out(2))
    ultimately show ?thesis
      by simp
  qed
  ultimately show ?thesis
    by (simp add: rename_and_sort_def)
qed

theorem encoder_rename_and_sort_fixed_point_witness:
  "encoder one_hot [''REGION'']
     \<lparr>schema = [(''REGION'', StringType 100), (''PRICE'', LongType)],
      rows = [[StrV ''a'', NumV 1], [StrV ''b'', NumV 2]]\<rparr>
     = Inr \<lparr>schema = [(''PRICE'', LongType), (''REGION__1'', LongType),
                      (''REGION__2'', LongType)],
            rows = [[NumV 1, NumV 1, NumV 0], [NumV 2, NumV 0, NumV 1]]\<rparr>
   \<and> rename_and_sort
       \<lparr>schema = [(''PRICE'', LongType), (''REGION__1'', LongType),
                  (''REGION__2'', LongType)],
        rows = [[NumV 1, NumV 1, NumV 0], [NumV 2, NumV 0, NumV 1]]\<rparr>
     = Inr \<lparr>schema = [(''PRICE'', LongType), (''REGION__1'', LongType),
                      (''REGION__2'', LongType)],
            rows = [[NumV 1, NumV 1, NumV 0], [NumV 2, NumV 0, NumV 1]]\<rparr>"
  (is "encoder one_hot _ ?df = Inr ?out \<and> _")
proof -
  have h1: "encoder one_hot [''REGION''] ?df = Inr ?out" by code_simp
  have h2: "\<forall>c \<in> set (columns ?out). \<not> is_renamed c" by code_simp
  from encoder_rename_and_sort_fixed_point [OF h1 h2] h1 show ?thesis by simp
qed

text \<open>
  The stage as a whole is not idempotent. Run on its own output with the columns it
  encoded the first time, the one-hot encoder does not find them; given no column,
  since no string column remains, it refuses the empty list.
\<close>

theorem encoder_rerun_fails_counterexample:
  "encoder one_hot [''REGION'']
     \<lparr>schema = [(''REGION'', StringType 100), (''PRICE'', LongType)],
      rows = [[StrV ''a'', NumV 1], [StrV ''b'', NumV 2]]\<rparr>
     = Inr \<lparr>schema = [(''PRICE'', LongType), (''REGION__1'', LongType),
                      (''REGION__2'', LongType)],
            rows = [[NumV 1, NumV 1, NumV 0], [NumV 2, NumV 0, NumV 1]]\<rparr>
   \<and> encoder one_hot [''REGION'']
       \<lparr>schema = [(''PRICE'', LongType), (''REGION__1'', LongType),
                  (''REGION__2'', LongType)],
        rows = [[NumV 1, NumV 1, NumV 0], [NumV 2, NumV 0, NumV 1]]\<rparr>
     = Inl (ColumnNotFound ''REGION'')
   \<and> encoder one_hot []
       \<lparr>schema = [(''PRICE'', LongType), (''REGION__1'', LongType),
                  (''REGION__2'', LongType)],
        rows = [[NumV 1, NumV 1, NumV 0], [NumV 2, NumV 0, NumV 1]]\<rparr>
     = Inl InputColsNotSet"
  by code_simp

text \<open>
  The proviso on the column names is needed: a name that is reported in double quotes
  is renamed again, with the index it has in the sorted order.
\<close>

lemma renaming_dict_quoted_name_changes:
  "renaming_dict [quoted ''b c__1'', ''A''] = [(quoted ''b c__1'', ''b c__0''), (''A'', ''A'')]"
  by code_simp

section \<open>Properties of the Trainer\<close>

text \<open>
  Claim C8. The two model configurations are identical in every field (input columns,
  label column, output column, 1000 estimators) except the tree method (\<open>''hist''\<close>
  and \<open>''gpu_hist''\<close>) and the predictor (\<open>''cpu_predictor''\<close> and
  \<open>''gpu_predictor''\<close>).
\<close>

theorem trainer_configurations_differ_only_in_target:
  assumes "cpu_snowpark_xgb train = Inr cpu"
  shows "\<exists>gpu. gpu_snowpark_xgb train = Inr gpu
       \<and> gpu = cpu\<lparr>tree_method := ''gpu_hist'', predictor := ''gpu_predictor''\<rparr>
       \<and> input_cols gpu = input_cols cpu
       \<and> label_cols gpu = label_cols cpu
       \<and> output_cols gpu = output_cols cpu
       \<and> n_estimators gpu = 1000 \<and> n_estimators cpu = 1000
       \<and> tree_method cpu = ''hist'' \<and> tree_method gpu = ''gpu_hist''
       \<and> predictor cpu = ''cpu_predictor'' \<and> predictor gpu = ''gpu_predictor''"
  using assms by (auto simp: cpu_snowpark_xgb_def gpu_snowpark_xgb_def split: sum.splits)

theorem trainer_configurations_differ_only_in_target_witness:
  "cpu_snowpark_xgb \<lparr>schema = [(''PRICE'', LongType), (''YEAR'', LongType)],
                      rows = [[NumV 500, NumV 2010]]\<rparr>
     = Inr \<lparr>input_cols = [''YEAR''], label_cols = [''PRICE''], output_cols = ''PREDICTED_PRICE'',
            tree_method = ''hist'', predictor = ''cpu_predictor'', n_estimators = 1000\<rparr>
   \<and> gpu_snowpark_xgb \<lparr>schema = [(''PRICE'', LongType), (''YEAR'', LongType)],
                      rows = [[NumV 500, NumV 2010]]\<rparr>
     = Inr \<lparr>input_cols = [''YEAR''], label_cols = [''PRICE''], output_cols = ''PREDICTED_PRICE'',
            tree_method = ''gpu_hist'', predictor = ''gpu_predictor'', n_estimators = 1000\<rparr>"
  (is "cpu_snowpark_xgb ?train = Inr ?cpu \<and> _")
proof -
  have h: "cpu_snowpark_xgb ?train = Inr ?cpu" by code_simp
  from trainer_configurations_differ_only_in_target [OF h] h show ?thesis by auto
qed

text \<open>
  Claim C10. In both configurations the input columns are the columns of the training
  set with PRICE removed and the label columns are exactly PRICE, so the label is never
  an input of the model.
\<close>

theorem trainer_label_not_an_input:
  assumes "cpu_snowpark_xgb train = Inr cpu" and "gpu_snowpark_xgb train = Inr gpu"
  shows "input_cols cpu = filter (\<lambda>c. c \<noteq> ''PRICE'') (columns train)
       \<and> label_cols cpu = [''PRICE'']
       \<and> set (input_cols cpu) \<inter> set (label_cols cpu) = {}
       \<and> input_cols gpu = filter (\<lambda>c. c \<noteq> ''PRICE'') (columns train)
       \<and> label_cols gpu = [''PRICE'']
       \<and> set (input_cols gpu) \<inter> set (label_cols gpu) = {}"
proof -
  from assms(1) obtain features label where
    f: "drop_columns [''PRICE''] train = Inr features" and l: "select [''PRICE''] train = Inr label"
    and cpu: "input_cols cpu = columns features" "label_cols cpu = columns label"
    by (auto simp: cpu_snowpark_xgb_def split: sum.splits)
  from assms(2) f l have gpu: "input_cols gpu = columns features" "label_cols gpu = columns label"
    by (auto simp: gpu_snowpark_xgb_def)
  have "columns features = filter (\<lambda>c. c \<noteq> ''PRICE'') (columns train)"
    using drop_columns_columns [OF f] by simp
  moreover have "columns label = [''PRICE'']"
    using l by (rule select_columns)
  ultimately show ?thesis
    by (simp add: cpu gpu)
qed

theorem trainer_label_not_an_input_witness:
  "cpu_snowpark_xgb \<lparr>schema = [(''ODOMETER'', LongType), (''PRICE'', LongType),
                                 (''YEAR'', LongType)],
                      rows = [[NumV 90000, NumV 500, NumV 2010]]\<rparr>
     = Inr \<lparr>input_cols = [''ODOMETER'', ''YEAR''], label_cols = [''PRICE''],
            output_cols = ''PREDICTED_PRICE'', tree_method = ''hist'',
            predictor = ''cpu_predictor'', n_estimators = 1000\<rparr>
   \<and> gpu_snowpark_xgb \<lparr>schema = [(''ODOMETER'', LongType), (''PRICE'', LongType),
                                 (''YEAR'', LongType)],
                      rows = [[NumV 90000, NumV 500, NumV 2010]]\<rparr>
     = Inr \<lparr>input_cols = [''ODOMETER'', ''YEAR''], label_cols = [''PRICE''],
            output_cols = ''PREDICTED_PRICE'', tree_method = ''gpu_hist'',
            predictor = ''gpu_predictor'', n_estimators = 1000\<rparr>
   \<and> set [''ODOMETER'', ''YEAR''] \<inter> set [''PRICE''] = ({} :: string set)"
  (is "cpu_snowpark_xgb ?train = Inr ?cpu \<and> gpu_snowpark_xgb ?train = Inr ?gpu \<and> _")
proof -
  have h1: "cpu_snowpark_xgb ?train = Inr ?cpu" by code_simp
  have h2: "gpu_snowpark_xgb ?train = Inr ?gpu" by code_simp
  from trainer_label_not_an_input [OF h1 h2] h1 h2 show ?thesis by simp
qed

end
